theory Spec2Isabelle
  imports Complex_Main "HOL-Library.Log_Nat"
begin

section \<open>JavaScript values used by the dispenser manager\<close>

text \<open>
  A JavaScript number is an IEEE 754 binary64 value: a finite double, one of the two
  infinities, or NaN. \<open>Fin x\<close> is the finite double of value \<open>x\<close>; where \<open>x\<close> is not
  itself a binary64 value, \<open>Fin x\<close> is read as the double nearest to it, the way the
  decimal literal \<open>x\<close> is. The sign of zero is not kept: \<open>-0\<close> is \<open>Fin 0\<close>.
\<close>

datatype jsnum = Fin real | PosInfinity | NegInfinity | NaN

text \<open>The argument of \<open>createDispenser\<close> is any JavaScript value; \<open>typeof\<close> tells numbers apart.\<close>

datatype jsval = VNum jsnum | VStr string | VUndefined

text \<open>
  A \<open>Date\<close> object holds a time value, an integer number of milliseconds since the
  epoch of at most 8.64e15 in absolute value, or NaN (``Invalid Date'').
  \<open>Date.parse\<close> of a Date object is NaN exactly for the invalid one.
\<close>

datatype jsdate = Date int | InvalidDate

subsection \<open>Rounding to binary64\<close>

text \<open>\<open>pow2 e\<close> is \<open>2^e\<close> for any integer \<open>e\<close>.\<close>

definition pow2 :: "int \<Rightarrow> real" where
  "pow2 e = (if 0 \<le> e then 2 ^ nat e else 1 / 2 ^ nat (- e))"

text \<open>The binary exponent of a non-zero \<open>x\<close>: the \<open>e\<close> with \<open>2^e \<le> |x| < 2^(e+1)\<close>.\<close>

definition expo :: "real \<Rightarrow> int" where
  "expo x =
     (if 1 \<le> \<bar>x\<bar> then bitlen \<lfloor>\<bar>x\<bar>\<rfloor> - 1 else - bitlen (\<lceil>1 / \<bar>x\<bar>\<rceil> - 1))"

text \<open>The integer nearest to \<open>q\<close>, the even one of the two when \<open>q\<close> lies halfway.\<close>

definition round_half_even :: "real \<Rightarrow> int" where
  "round_half_even q =
     (if q - of_int \<lfloor>q\<rfloor> < 1 / 2 then \<lfloor>q\<rfloor>
      else if 1 / 2 < q - of_int \<lfloor>q\<rfloor> then \<lfloor>q\<rfloor> + 1
      else if even \<lfloor>q\<rfloor> then \<lfloor>q\<rfloor> else \<lfloor>q\<rfloor> + 1)"

text \<open>
  The double that an exact result \<open>x\<close> is rounded to (round to nearest, ties to even):
  a multiple of the unit in the last place, which is \<open>2^(e - 52)\<close> for the exponent \<open>e\<close>
  of \<open>x\<close> and \<open>2^(-1074)\<close> in the subnormal range; from \<open>2^1024\<close> on the result is an
  infinity.
\<close>

definition to_double :: "real \<Rightarrow> jsnum" where
  "to_double x =
     (if x = 0 then Fin 0
      else
        (let ulp = pow2 (max (expo x) (- 1022) - 52);
             y = of_int (round_half_even (\<bar>x\<bar> / ulp)) * ulp
         in if 2 ^ 1024 \<le> y then (if 0 < x then PosInfinity else NegInfinity)
            else Fin (sgn x * y)))"

text \<open>A number as the double it stands for.\<close>

fun dbl :: "jsnum \<Rightarrow> jsnum" where
  "dbl (Fin x) = to_double x"
| "dbl PosInfinity = PosInfinity"
| "dbl NegInfinity = NegInfinity"
| "dbl NaN = NaN"

subsection \<open>Operators\<close>

text \<open>\<open>a <= b\<close> on numbers: false as soon as one side is NaN.\<close>

fun le64 :: "jsnum \<Rightarrow> jsnum \<Rightarrow> bool" where
  "le64 NaN _ = False"
| "le64 _ NaN = False"
| "le64 (Fin a) (Fin b) = (a \<le> b)"
| "le64 NegInfinity _ = True"
| "le64 _ PosInfinity = True"
| "le64 PosInfinity _ = False"
| "le64 _ NegInfinity = False"

definition js_le :: "jsnum \<Rightarrow> jsnum \<Rightarrow> bool" where
  "js_le a b = le64 (dbl a) (dbl b)"

fun js_sign :: "jsnum \<Rightarrow> real" where
  "js_sign (Fin a) = sgn a"
| "js_sign PosInfinity = 1"
| "js_sign NegInfinity = - 1"
| "js_sign NaN = 0"

text \<open>\<open>a * b\<close>: the exact product rounded to a double; NaN is absorbing, and an infinity
  times zero is NaN.\<close>

fun mul64 :: "jsnum \<Rightarrow> jsnum \<Rightarrow> jsnum" where
  "mul64 NaN _ = NaN"
| "mul64 _ NaN = NaN"
| "mul64 (Fin a) (Fin b) = to_double (a * b)"
| "mul64 a b =
     (if js_sign a * js_sign b = 0 then NaN
      else if 0 < js_sign a * js_sign b then PosInfinity else NegInfinity)"

definition js_mul :: "jsnum \<Rightarrow> jsnum \<Rightarrow> jsnum" where
  "js_mul a b = mul64 (dbl a) (dbl b)"

text \<open>\<open>a + b\<close>: the exact sum rounded to a double; NaN is absorbing, and opposite
  infinities add up to NaN.\<close>

fun add64 :: "jsnum \<Rightarrow> jsnum \<Rightarrow> jsnum" where
  "add64 NaN _ = NaN"
| "add64 _ NaN = NaN"
| "add64 (Fin a) (Fin b) = to_double (a + b)"
| "add64 PosInfinity NegInfinity = NaN"
| "add64 NegInfinity PosInfinity = NaN"
| "add64 PosInfinity _ = PosInfinity"
| "add64 _ PosInfinity = PosInfinity"
| "add64 NegInfinity _ = NegInfinity"
| "add64 _ NegInfinity = NegInfinity"

definition js_add :: "jsnum \<Rightarrow> jsnum \<Rightarrow> jsnum" where
  "js_add a b = add64 (dbl a) (dbl b)"

text \<open>\<open>a / 1000\<close>: the exact quotient rounded to a double.\<close>

fun div1000 :: "jsnum \<Rightarrow> jsnum" where
  "div1000 (Fin a) = to_double (a / 1000)"
| "div1000 PosInfinity = PosInfinity"
| "div1000 NegInfinity = NegInfinity"
| "div1000 NaN = NaN"

text \<open>
  \<open>new Date(b) - new Date(a)\<close> for two valid dates: both time values are integers that
  are doubles, and their exact difference is rounded to a double.
\<close>

definition date_diff :: "int \<Rightarrow> int \<Rightarrow> jsnum" where
  "date_diff b a = to_double (of_int (b - a))"

text \<open>\<open>Number(s)\<close> for the decimal string \<open>s\<close> that prints \<open>n / 100\<close>: the double
  nearest to \<open>n / 100\<close>.\<close>

definition cents :: "int \<Rightarrow> jsnum" where
  "cents n = to_double (of_int n / 100)"

text \<open>
  \<open>Number(x.toFixed(2))\<close> for a double \<open>x\<close>. From \<open>10^21\<close> on, \<open>toFixed\<close> prints the
  number itself. Below, it takes the sign off, picks the integer \<open>n\<close> with \<open>n / 100\<close>
  closest to the exact value \<open>|x|\<close> (the larger one on a tie) and prints \<open>n / 100\<close> with
  the sign; \<open>Number\<close> reads that decimal back. NaN and the infinities print as
  themselves and are read back unchanged.
\<close>

fun toFixed2 :: "jsnum \<Rightarrow> jsnum" where
  "toFixed2 (Fin x) =
     (if 10 ^ 21 \<le> \<bar>x\<bar> then Fin x
      else if x < 0 then cents (- \<lfloor>\<bar>x\<bar> * 100 + 1 / 2\<rfloor>)
      else cents \<lfloor>\<bar>x\<bar> * 100 + 1 / 2\<rfloor>)"
| "toFixed2 PosInfinity = PosInfinity"
| "toFixed2 NegInfinity = NegInfinity"
| "toFixed2 NaN = NaN"

text \<open>\<open>v || 0\<close> for a map lookup \<open>v\<close>: \<open>undefined\<close>, \<open>0\<close> and NaN are falsy.\<close>

fun or_zero :: "jsnum option \<Rightarrow> jsnum" where
  "or_zero None = Fin 0"
| "or_zero (Some NaN) = Fin 0"
| "or_zero (Some (Fin x)) = Fin x"
| "or_zero (Some PosInfinity) = PosInfinity"
| "or_zero (Some NegInfinity) = NegInfinity"

section \<open>utils.js\<close>

text \<open>
  \<open>calculateTotalSpent(openedAt, closedAt, flowVolume)\<close>. The constant
  \<open>PRICE_PER_LITRE\<close> lives in \<open>constants/constants.js\<close>, which is not part of the
  sources at hand, so it is the parameter \<open>price\<close> of every function that needs it.
  Both dates are valid wherever the manager calls the function (a stored \<open>opened_at\<close>,
  a validated \<open>updatedAt\<close>, or \<open>new Date()\<close>), so they are given by their time values.
  Each of the four operations (the difference, the division and the two products)
  rounds its result to a double.
\<close>

definition calculateTotalSpent :: "real \<Rightarrow> int \<Rightarrow> int \<Rightarrow> jsnum \<Rightarrow> jsnum" where
  "calculateTotalSpent price openedAt closedAt flowVolume =
     (let secondsOpen = div1000 (date_diff closedAt openedAt);
          totalSpent = js_mul (js_mul secondsOpen flowVolume) (Fin price)
      in toFixed2 totalSpent)"

section \<open>dispenserManager.js\<close>

definition OPEN :: string where "OPEN = ''open''"
definition CLOSE :: string where "CLOSE = ''close''"

record dispenser =
  disp_id :: string
  flow_volume :: jsnum
  state :: string
  updated_at :: int

text \<open>
  One entry of a \<open>statusChanges\<close> array. \<open>closed_at\<close> and \<open>total_spent\<close> are \<open>null\<close>
  (here \<open>None\<close>) until they are set. The dates stored have passed the \<open>isNaN\<close> check,
  so they are kept as time values.
\<close>

record statusChange =
  opened_at :: int
  closed_at :: "int option"
  usage_flow_volume :: jsnum
  total_spent :: "jsnum option"

record DispenserManager =
  dispensers :: "dispenser list"
  statusChanges :: "string \<rightharpoonup> statusChange list"
  totalSpentPerDispenser :: "string \<rightharpoonup> jsnum"

datatype error =
  DispenserNotFound | InvalidStatus | InvalidDateFormat | InvalidDateOrder
  | InvalidFlowVolume | TypeError

text \<open>What \<open>changeDispenserStatus\<close> returns: \<open>{success: true, dispenser}\<close> or
  \<open>{success: false, message: DISPENSER_ALREADY_IN_DESIRED_STATE}\<close>.\<close>

datatype change_result = Success dispenser | AlreadyInDesiredState

record spending =
  amount :: jsnum
  usages :: "statusChange list"

text \<open>The constructor: three empty containers.\<close>

definition new_manager :: DispenserManager where
  "new_manager = \<lparr>dispensers = [], statusChanges = Map.empty, totalSpentPerDispenser = Map.empty\<rparr>"

text \<open>\<open>this.dispensers.find(d => d.id === id)\<close> yields the first match, and the code then
  writes to that object in place: the first match is the one replaced.\<close>

definition find_dispenser :: "string \<Rightarrow> DispenserManager \<Rightarrow> dispenser option" where
  "find_dispenser i m = find (\<lambda>d. disp_id d = i) (dispensers m)"

fun update_first :: "('a \<Rightarrow> bool) \<Rightarrow> ('a \<Rightarrow> 'a) \<Rightarrow> 'a list \<Rightarrow> 'a list" where
  "update_first P f [] = []"
| "update_first P f (x # xs) = (if P x then f x # xs else x # update_first P f xs)"

text \<open>
  The call of \<open>calculateTotalSpent\<close> as a step of the manager's methods.
  The function lives in \<open>utils.js\<close> and sees the manager only through its arguments;
  it builds new \<open>Date\<close> objects from the two dates instead of writing to them, and
  assigns to nothing but its own locals. So the step yields the value and hands the
  manager on as it received it.
\<close>

definition calculateTotalSpent_call ::
  "real \<Rightarrow> int \<Rightarrow> int \<Rightarrow> jsnum \<Rightarrow> DispenserManager \<Rightarrow> jsnum \<times> DispenserManager" where
  "calculateTotalSpent_call price openedAt closedAt flowVolume m =
     (calculateTotalSpent price openedAt closedAt flowVolume, m)"

text \<open>\<open>new Date(v)\<close> for a stored \<open>closed_at\<close>: \<open>new Date(null)\<close> is the epoch.\<close>

fun date_of_nullable :: "int option \<Rightarrow> int" where
  "date_of_nullable None = 0"
| "date_of_nullable (Some t) = t"

definition updateTotalSpentPerDispenser :: "string \<Rightarrow> jsnum \<Rightarrow> DispenserManager \<Rightarrow> DispenserManager" where
  "updateTotalSpentPerDispenser i spentAmount m =
     (let total = or_zero (totalSpentPerDispenser m i)
      in m\<lparr>totalSpentPerDispenser := (totalSpentPerDispenser m)(i \<mapsto> js_add total spentAmount)\<rparr>)"

text \<open>
  \<open>createDispenser(flow_volume)\<close>. \<open>uid\<close> is what \<open>uuidv4()\<close> returns and \<open>now\<close> the time
  value of \<open>new Date()\<close>. Every function returns its outcome together with the manager
  as it is when the function returns or throws.
\<close>

definition createDispenser ::
  "string \<Rightarrow> int \<Rightarrow> jsval \<Rightarrow> DispenserManager \<Rightarrow> (error + dispenser) \<times> DispenserManager" where
  "createDispenser uid now fv m =
     (case fv of
        VNum n \<Rightarrow>
          if js_le n (Fin 0) then (Inl InvalidFlowVolume, m)
          else
            (let d = \<lparr>disp_id = uid, flow_volume = n, state = CLOSE, updated_at = now\<rparr>
             in (Inr d, m\<lparr>dispensers := dispensers m @ [d]\<rparr>))
      | _ \<Rightarrow> (Inl InvalidFlowVolume, m))"

definition changeDispenserStatus ::
  "real \<Rightarrow> string \<Rightarrow> string \<Rightarrow> jsdate \<Rightarrow> DispenserManager
     \<Rightarrow> (error + change_result) \<times> DispenserManager" where
  "changeDispenserStatus price i st updatedAt m =
     (case find_dispenser i m of
        None \<Rightarrow> (Inl DispenserNotFound, m)
      | Some d0 \<Rightarrow>
          if st \<noteq> OPEN \<and> st \<noteq> CLOSE then (Inl InvalidStatus, m)
          else
            (case updatedAt of
               InvalidDate \<Rightarrow> (Inl InvalidDateFormat, m)
             | Date t \<Rightarrow>
                 if state d0 = st then (Inr AlreadyInDesiredState, m)
                 else
                   (let d = d0\<lparr>state := st, updated_at := t\<rparr>;
                        m1 = m\<lparr>dispensers :=
                               update_first (\<lambda>x. disp_id x = i) (\<lambda>_. d) (dispensers m)\<rparr>
                    in
                      if st = OPEN then
                        (let sc = \<lparr>opened_at = t, closed_at = None,
                                   usage_flow_volume = flow_volume d, total_spent = None\<rparr>
                         in
                           case statusChanges m i of
                             Some scs \<Rightarrow>
                               if scs \<noteq> [] \<and> t \<le> date_of_nullable (closed_at (last scs))
                               then (Inl InvalidDateOrder, m1)
                               else (Inr (Success d),
                                     m1\<lparr>statusChanges := (statusChanges m)(i \<mapsto> scs @ [sc])\<rparr>)
                           | None \<Rightarrow>
                               (Inr (Success d),
                                m1\<lparr>statusChanges := (statusChanges m)(i \<mapsto> [sc])\<rparr>))
                      else
                        (case statusChanges m i of
                           Some scs \<Rightarrow>
                             if scs = [] then (Inl TypeError, m1)
                             else if t \<le> opened_at (last scs) then (Inl InvalidDateOrder, m1)
                             else
                               (let (spent, m2) =
                                      calculateTotalSpent_call price (opened_at (last scs)) t
                                        (usage_flow_volume (last scs)) m1;
                                    l = (last scs)\<lparr>closed_at := Some t, total_spent := Some spent\<rparr>
                                in (Inr (Success d),
                                    updateTotalSpentPerDispenser i spent
                                      (m2\<lparr>statusChanges :=
                                            (statusChanges m2)(i \<mapsto> butlast scs @ [l])\<rparr>)))
                         | None \<Rightarrow> (Inr (Success d), m1)))))"

definition getSpending ::
  "real \<Rightarrow> int \<Rightarrow> string \<Rightarrow> DispenserManager \<Rightarrow> (error + spending) \<times> DispenserManager" where
  "getSpending price now i m =
     (case find_dispenser i m of
        None \<Rightarrow> (Inl DispenserNotFound, m)
      | Some d \<Rightarrow>
          (case statusChanges m i of
             None \<Rightarrow> (Inr \<lparr>amount = Fin 0, usages = []\<rparr>, m)
           | Some sp \<Rightarrow>
               if sp = [] then (Inl TypeError, m)
               else if closed_at (last sp) = None then
                 (let (spent, m0) =
                        calculateTotalSpent_call price (opened_at (last sp)) now
                          (usage_flow_volume (last sp)) m;
                      l = (last sp)\<lparr>total_spent := Some spent\<rparr>;
                      m1 = updateTotalSpentPerDispenser i spent
                             (m0\<lparr>statusChanges := (statusChanges m0)(i \<mapsto> butlast sp @ [l])\<rparr>)
                  in (Inr \<lparr>amount = or_zero (totalSpentPerDispenser m1 i),
                           usages = butlast sp @ [l]\<rparr>, m1))
               else (Inr \<lparr>amount = or_zero (totalSpentPerDispenser m i), usages = sp\<rparr>, m)))"

section \<open>Sequences of calls\<close>

datatype operation =
  CreateDispenserOp string int jsval
  | ChangeStatusOp string string jsdate
  | GetSpendingOp int string

fun step :: "real \<Rightarrow> operation \<Rightarrow> DispenserManager \<Rightarrow> DispenserManager" where
  "step price (CreateDispenserOp uid now fv) m = snd (createDispenser uid now fv m)"
| "step price (ChangeStatusOp i st t) m = snd (changeDispenserStatus price i st t m)"
| "step price (GetSpendingOp now i) m = snd (getSpending price now i m)"

text \<open>Calls in order, from left to right; a call that throws leaves what it had written.\<close>

definition run :: "real \<Rightarrow> operation list \<Rightarrow> DispenserManager \<Rightarrow> DispenserManager" where
  "run price ops m = foldl (\<lambda>s op. step price op s) m ops"

inductive reachable :: "real \<Rightarrow> DispenserManager \<Rightarrow> bool" for price :: real where
  reachable_new: "reachable price new_manager"
| reachable_step: "reachable price m \<Longrightarrow> reachable price (step price op m)"

section \<open>Example stores\<close>

text \<open>
  One tap of flow 0.5, at a price of 12.25 per litre: just created; then opened at 10 s;
  from there either closed at 10.2 s, or sent a close request dated 5 s (which throws)
  and after that an open request dated 7 s.
\<close>

definition fresh_store :: DispenserManager where
  "fresh_store = run (49 / 4) [CreateDispenserOp ''tap-1'' 0 (VNum (Fin (1 / 2)))] new_manager"

definition open_store :: DispenserManager where
  "open_store = run (49 / 4) [ChangeStatusOp ''tap-1'' OPEN (Date 10000)] fresh_store"

definition failed_close_store :: DispenserManager where
  "failed_close_store = run (49 / 4) [ChangeStatusOp ''tap-1'' CLOSE (Date 5000)] open_store"

definition closed_store :: DispenserManager where
  "closed_store = run (49 / 4) [ChangeStatusOp ''tap-1'' CLOSE (Date 10200)] open_store"

text \<open>A tap of flow 1 at the same price, opened at 10 s and closed 20 ms later, or
  half a second later.\<close>

definition unit_open_store :: DispenserManager where
  "unit_open_store =
     run (49 / 4) [CreateDispenserOp ''tap-1'' 0 (VNum (Fin 1)),
                   ChangeStatusOp ''tap-1'' OPEN (Date 10000)] new_manager"

definition short_store :: DispenserManager where
  "short_store = run (49 / 4) [ChangeStatusOp ''tap-1'' CLOSE (Date 10020)] unit_open_store"

definition half_second_store :: DispenserManager where
  "half_second_store = run (49 / 4) [ChangeStatusOp ''tap-1'' CLOSE (Date 10500)] unit_open_store"

definition double_open_store :: DispenserManager where
  "double_open_store = run (49 / 4) [ChangeStatusOp ''tap-1'' OPEN (Date 7000)] failed_close_store"

section \<open>Predicates on usage sequences\<close>

text \<open>A closed period carries the amount the calculator gives for its two dates.\<close>

definition closed_has_total :: "real \<Rightarrow> statusChange \<Rightarrow> bool" where
  "closed_has_total price p =
     (case closed_at p of
        None \<Rightarrow> True
      | Some c \<Rightarrow> total_spent p
          = Some (calculateTotalSpent price (opened_at p) c (usage_flow_volume p)))"

text \<open>
  \<open>new\<close> continues \<open>old\<close>: nothing was removed or reordered, every period of \<open>old\<close> but
  its last one is still there unchanged, and no period of \<open>old\<close> changed its \<open>opened_at\<close>
  or its flow volume.
\<close>

definition ledger_extends :: "statusChange list \<Rightarrow> statusChange list \<Rightarrow> bool" where
  "ledger_extends old new =
     (length old \<le> length new
      \<and> take (length old - 1) new = butlast old
      \<and> map opened_at (take (length old) new) = map opened_at old
      \<and> map usage_flow_volume (take (length old) new) = map usage_flow_volume old)"

text \<open>What one call can do to one entry of \<open>statusChanges\<close>: nothing, push a new open
  period, or replace the last period by one with the same \<open>opened_at\<close> and flow volume.\<close>

definition ledger_step ::
  "real \<Rightarrow> statusChange list option \<Rightarrow> statusChange list option \<Rightarrow> bool" where
  "ledger_step price old new =
     (new = old
      \<or> (\<exists>sc. closed_at sc = None
            \<and> new = Some (case old of None \<Rightarrow> [sc] | Some scs \<Rightarrow> scs @ [sc]))
      \<or> (\<exists>scs l. old = Some scs \<and> scs \<noteq> [] \<and> new = Some (butlast scs @ [l])
            \<and> opened_at l = opened_at (last scs)
            \<and> usage_flow_volume l = usage_flow_volume (last scs)
            \<and> closed_has_total price l))"

section \<open>Rounding to binary64: what the definitions compute\<close>

text \<open>\<open>expo\<close> is the binary exponent, and \<open>to_double\<close> yields a multiple of the unit in
  the last place at most half a unit away from the exact value.\<close>

lemma pow2_add1: "pow2 (e + 1) = 2 * pow2 e"
proof (cases "0 \<le> e")
  case True
  then show ?thesis by (simp add: pow2_def nat_add_distrib)
next
  case False
  then have "nat (- e) = Suc (nat (- (e + 1)))" by simp
  then show ?thesis using False by (simp add: pow2_def)
qed

lemma expo_bounds:
  assumes "x \<noteq> 0"
  shows "pow2 (expo x) \<le> \<bar>x\<bar> \<and> \<bar>x\<bar> < pow2 (expo x + 1)"
proof (cases "1 \<le> \<bar>x\<bar>")
  case True
  define n where "n = \<lfloor>\<bar>x\<bar>\<rfloor>"
  have n1: "1 \<le> n" using True by (simp add: n_def le_floor_iff)
  then have b1: "1 \<le> bitlen n" by (simp add: bitlen_alt_def)
  have e: "expo x = bitlen n - 1" using True by (simp add: expo_def n_def)
  from n1 have bb: "2 ^ nat (bitlen n - 1) \<le> n" "n < 2 ^ nat (bitlen n)"
    using bitlen_bounds [of n] by simp_all
  have "real_of_int (2 ^ nat (bitlen n - 1)) \<le> real_of_int n" using bb(1) by (simp only: of_int_le_iff)
  then have "(2::real) ^ nat (bitlen n - 1) \<le> real_of_int n" by (simp only: of_int_power of_int_numeral)
  moreover have "real_of_int n \<le> \<bar>x\<bar>" by (simp add: n_def)
  ultimately have lo: "2 ^ nat (bitlen n - 1) \<le> \<bar>x\<bar>" by linarith
  have "n + 1 \<le> 2 ^ nat (bitlen n)" using bb(2) by simp
  then have "real_of_int (n + 1) \<le> real_of_int (2 ^ nat (bitlen n))" by (simp only: of_int_le_iff)
  then have "real_of_int (n + 1) \<le> (2::real) ^ nat (bitlen n)" by (simp only: of_int_power of_int_numeral)
  moreover have "\<bar>x\<bar> < real_of_int (n + 1)" by (simp add: n_def)
  ultimately have hi: "\<bar>x\<bar> < 2 ^ nat (bitlen n)" by linarith
  show ?thesis using lo hi b1 by (simp add: e pow2_def)
next
  case False
  define y where "y = 1 / \<bar>x\<bar>"
  define c where "c = \<lceil>y\<rceil>"
  define b where "b = bitlen (c - 1)"
  have xpos: "0 < \<bar>x\<bar>" using assms by simp
  have y1: "1 < y" using False xpos by (simp add: y_def)
  have cy: "y \<le> real_of_int c" "real_of_int c - 1 < y" unfolding c_def by linarith+
  have c2: "2 \<le> c" using y1 cy(1) by linarith
  then have b1: "1 \<le> b" by (simp add: b_def bitlen_alt_def)
  have e: "expo x = - b" using False by (simp add: expo_def b_def c_def y_def)
  from c2 have bb: "2 ^ nat (b - 1) \<le> c - 1" "c - 1 < 2 ^ nat b"
    using bitlen_bounds [of "c - 1"] by (simp_all add: b_def)
  have "c \<le> 2 ^ nat b" using bb(2) by simp
  then have "real_of_int c \<le> real_of_int (2 ^ nat b)" by (simp only: of_int_le_iff)
  then have "real_of_int c \<le> (2::real) ^ nat b" by (simp only: of_int_power of_int_numeral)
  then have yb: "y \<le> 2 ^ nat b" using cy(1) by linarith
  have "real_of_int (2 ^ nat (b - 1)) \<le> real_of_int (c - 1)" using bb(1) by (simp only: of_int_le_iff)
  then have "(2::real) ^ nat (b - 1) \<le> real_of_int c - 1" by (simp only: of_int_power of_int_numeral of_int_diff of_int_1)
  then have yl: "2 ^ nat (b - 1) < y" using cy(2) by linarith
  have lo: "1 / 2 ^ nat b \<le> \<bar>x\<bar>"
  proof -
    have "1 / 2 ^ nat b \<le> 1 / y" using yb y1 by (intro divide_left_mono) simp_all
    then show ?thesis by (simp add: y_def)
  qed
  have hi: "\<bar>x\<bar> < 1 / 2 ^ nat (b - 1)"
  proof -
    have "0 < y * 2 ^ nat (b - 1)" using y1 by simp
    then have "1 / y < 1 / 2 ^ nat (b - 1)" using yl by (intro divide_strict_left_mono) simp_all
    then show ?thesis by (simp add: y_def)
  qed
  show ?thesis
  proof (cases "b = 1")
    case True
    then show ?thesis using lo hi by (simp add: e pow2_def)
  next
    case False
    then have "- b + 1 < 0" "nat (- (- b + 1)) = nat (b - 1)" using b1 by simp_all
    then show ?thesis using lo hi b1 by (simp add: e pow2_def)
  qed
qed

lemma pow2_pos: "0 < pow2 e"
  by (simp add: pow2_def)

lemma round_half_even_near: "\<bar>real_of_int (round_half_even q) - q\<bar> \<le> 1 / 2"
proof -
  have "real_of_int \<lfloor>q\<rfloor> \<le> q" "q < real_of_int \<lfloor>q\<rfloor> + 1" by linarith+
  then show ?thesis by (auto simp: round_half_even_def)
qed

lemma to_double_near:
  assumes "to_double x = Fin y"
  shows "\<exists>m::int. y = sgn x * of_int m * pow2 (max (expo x) (- 1022) - 52)
           \<and> \<bar>y - x\<bar> \<le> pow2 (max (expo x) (- 1022) - 52) / 2"
proof (cases "x = 0")
  case True
  then have "y = 0" using assms by (simp add: to_double_def)
  then show ?thesis using True pow2_pos [of "max (expo x) (- 1022) - 52"] by simp
next
  case False
  let ?u = "pow2 (max (expo x) (- 1022) - 52)"
  let ?m = "round_half_even (\<bar>x\<bar> / ?u)"
  have u: "0 < ?u" by (rule pow2_pos)
  from assms False have y: "y = sgn x * (of_int ?m * ?u)"
    by (simp add: to_double_def Let_def split: if_splits)
  have "\<bar>real_of_int ?m - \<bar>x\<bar> / ?u\<bar> \<le> 1 / 2" by (rule round_half_even_near)
  then have "\<bar>real_of_int ?m - \<bar>x\<bar> / ?u\<bar> * ?u \<le> 1 / 2 * ?u"
    using u by (intro mult_right_mono) simp_all
  moreover have "\<bar>real_of_int ?m - \<bar>x\<bar> / ?u\<bar> * ?u = \<bar>real_of_int ?m * ?u - \<bar>x\<bar>\<bar>"
  proof -
    have "\<bar>real_of_int ?m - \<bar>x\<bar> / ?u\<bar> * ?u = \<bar>(real_of_int ?m - \<bar>x\<bar> / ?u) * ?u\<bar>"
      using u by (simp only: abs_mult abs_of_pos)
    also have "(real_of_int ?m - \<bar>x\<bar> / ?u) * ?u = real_of_int ?m * ?u - \<bar>x\<bar>"
      using u by (simp add: left_diff_distrib)
    finally show ?thesis .
  qed
  ultimately have near: "\<bar>real_of_int ?m * ?u - \<bar>x\<bar>\<bar> \<le> ?u / 2" by simp
  have "\<bar>y - x\<bar> = \<bar>real_of_int ?m * ?u - \<bar>x\<bar>\<bar>"
  proof (cases "0 < x")
    case True
    then show ?thesis by (simp add: y)
  next
    case neg: False
    then have "x < 0" using False by simp
    then have "y - x = - (real_of_int ?m * ?u - \<bar>x\<bar>)" by (simp add: y)
    then show ?thesis by (simp only: abs_minus_cancel)
  qed
  then have "\<bar>y - x\<bar> \<le> ?u / 2" using near by simp
  moreover have "y = sgn x * of_int ?m * ?u" by (simp add: y)
  ultimately show ?thesis by blast
qed

section \<open>Basic facts\<close>

lemma OPEN_neq_CLOSE [simp]: "OPEN \<noteq> CLOSE" "CLOSE \<noteq> OPEN"
  by (simp_all add: OPEN_def CLOSE_def)

lemma find_update_first:
  "find P xs = Some x \<Longrightarrow> P (f x) \<Longrightarrow> find P (update_first P f xs) = Some (f x)"
  by (induction xs) (auto split: if_splits)

lemma find_dispenser_id: "find_dispenser i m = Some d \<Longrightarrow> disp_id d = i"
  by (auto simp: find_dispenser_def find_Some_iff)

lemma find_dispenser_None: "(find_dispenser i m = None) = (i \<notin> disp_id ` set (dispensers m))"
  by (auto simp: find_dispenser_def find_None_iff)

lemma calculateTotalSpent_call_eq [simp]:
  "calculateTotalSpent_call price a b f m = (calculateTotalSpent price a b f, m)"
  by (simp add: calculateTotalSpent_call_def)

lemmas eval_defs = run_def createDispenser_def new_manager_def changeDispenserStatus_def
  find_dispenser_def Let_def updateTotalSpentPerDispenser_def getSpending_def

subsection \<open>Arithmetic at the inputs of the examples\<close>

lemmas arith_defs = to_double_def expo_def pow2_def round_half_even_def Let_def compute_bitlen
  js_mul_def js_add_def js_le_def date_diff_def calculateTotalSpent_def cents_def

lemma flow_accepted: "\<not> js_le (Fin (1 / 2)) (Fin 0)" "\<not> js_le (Fin 1) (Fin 0)"
  by (simp_all add: arith_defs)

lemma spent_200ms: "calculateTotalSpent (49 / 4) 10000 10200 (Fin (1 / 2)) = cents 123"
  by (simp add: arith_defs)

lemma spent_1230ms: "calculateTotalSpent (49 / 4) 10000 11230 (Fin (1 / 2)) = cents 753"
  by (simp add: arith_defs)

lemma spent_20ms: "calculateTotalSpent (49 / 4) 10000 10020 (Fin 1) = cents 24"
  by (simp add: arith_defs)

lemma spent_500ms: "calculateTotalSpent (49 / 4) 10000 10500 (Fin 1) = cents 613"
  by (simp add: arith_defs)

lemma product_500ms:
  "js_mul (js_mul (div1000 (date_diff 10500 10000)) (Fin 1)) (Fin (49 / 4)) = Fin (49 / 8)"
  by (simp add: arith_defs)

lemma product_20ms:
  "js_mul (js_mul (div1000 (date_diff 10020 10000)) (Fin 1)) (Fin (49 / 4))
     = Fin (2206763817411543 / 9007199254740992)"
  by (simp add: arith_defs)

lemma first_total:
  "js_add (Fin 0) (cents 123) = cents 123"
  "js_add (Fin 0) (cents 753) = cents 753"
  "js_add (Fin 0) (cents 24) = cents 24"
  "js_add (Fin 0) (cents 613) = cents 613"
  by (simp_all add: arith_defs)

lemma second_total:
  "js_add (or_zero (Some (cents 753))) (cents 753) = cents 1506"
  "or_zero (Some (cents 1506)) = cents 1506"
  by (simp_all add: arith_defs)

lemma cents_24_25: "cents 24 \<noteq> cents 25"
  by (simp add: arith_defs)
lemmas example_arith = flow_accepted spent_200ms spent_1230ms spent_20ms spent_500ms
  first_total second_total

subsection \<open>The example stores, evaluated\<close>

lemma fresh_store_eval:
  "fresh_store =
     \<lparr>dispensers = [\<lparr>disp_id = ''tap-1'', flow_volume = Fin (1 / 2), state = CLOSE, updated_at = 0\<rparr>],
      statusChanges = Map.empty, totalSpentPerDispenser = Map.empty\<rparr>"
  by (simp add: fresh_store_def eval_defs example_arith)

lemma open_store_eval:
  "open_store =
     \<lparr>dispensers = [\<lparr>disp_id = ''tap-1'', flow_volume = Fin (1 / 2), state = OPEN, updated_at = 10000\<rparr>],
      statusChanges = [''tap-1'' \<mapsto> [\<lparr>opened_at = 10000, closed_at = None,
         usage_flow_volume = Fin (1 / 2), total_spent = None\<rparr>]],
      totalSpentPerDispenser = Map.empty\<rparr>"
  by (simp add: open_store_def fresh_store_eval eval_defs)

lemma failed_close_eval:
  "changeDispenserStatus (49 / 4) ''tap-1'' CLOSE (Date 5000) open_store
     = (Inl InvalidDateOrder, failed_close_store)"
  by (simp add: failed_close_store_def open_store_eval eval_defs)

lemma failed_close_store_eval:
  "failed_close_store =
     \<lparr>dispensers = [\<lparr>disp_id = ''tap-1'', flow_volume = Fin (1 / 2), state = CLOSE, updated_at = 5000\<rparr>],
      statusChanges = [''tap-1'' \<mapsto> [\<lparr>opened_at = 10000, closed_at = None,
         usage_flow_volume = Fin (1 / 2), total_spent = None\<rparr>]],
      totalSpentPerDispenser = Map.empty\<rparr>"
  by (simp add: failed_close_store_def open_store_eval eval_defs)

lemma closed_store_eval:
  "closed_store =
     \<lparr>dispensers = [\<lparr>disp_id = ''tap-1'', flow_volume = Fin (1 / 2), state = CLOSE, updated_at = 10200\<rparr>],
      statusChanges = [''tap-1'' \<mapsto> [\<lparr>opened_at = 10000, closed_at = Some 10200,
         usage_flow_volume = Fin (1 / 2), total_spent = Some (cents 123)\<rparr>]],
      totalSpentPerDispenser = [''tap-1'' \<mapsto> cents 123]\<rparr>"
  by (simp add: closed_store_def open_store_eval eval_defs example_arith)

lemma unit_open_store_eval:
  "unit_open_store =
     \<lparr>dispensers = [\<lparr>disp_id = ''tap-1'', flow_volume = Fin 1, state = OPEN, updated_at = 10000\<rparr>],
      statusChanges = [''tap-1'' \<mapsto> [\<lparr>opened_at = 10000, closed_at = None,
         usage_flow_volume = Fin 1, total_spent = None\<rparr>]],
      totalSpentPerDispenser = Map.empty\<rparr>"
  by (simp add: unit_open_store_def eval_defs example_arith)

lemma short_store_eval:
  "short_store =
     \<lparr>dispensers = [\<lparr>disp_id = ''tap-1'', flow_volume = Fin 1, state = CLOSE, updated_at = 10020\<rparr>],
      statusChanges = [''tap-1'' \<mapsto> [\<lparr>opened_at = 10000, closed_at = Some 10020,
         usage_flow_volume = Fin 1, total_spent = Some (cents 24)\<rparr>]],
      totalSpentPerDispenser = [''tap-1'' \<mapsto> cents 24]\<rparr>"
  by (simp add: short_store_def unit_open_store_eval eval_defs example_arith)

lemma half_second_store_eval:
  "half_second_store =
     \<lparr>dispensers = [\<lparr>disp_id = ''tap-1'', flow_volume = Fin 1, state = CLOSE, updated_at = 10500\<rparr>],
      statusChanges = [''tap-1'' \<mapsto> [\<lparr>opened_at = 10000, closed_at = Some 10500,
         usage_flow_volume = Fin 1, total_spent = Some (cents 613)\<rparr>]],
      totalSpentPerDispenser = [''tap-1'' \<mapsto> cents 613]\<rparr>"
  by (simp add: half_second_store_def unit_open_store_eval eval_defs example_arith)

lemma run_reachable: "reachable price m \<Longrightarrow> reachable price (run price ops m)"
proof (induction ops arbitrary: m)
  case Nil
  then show ?case by (simp add: run_def)
next
  case (Cons op ops)
  from Cons.prems have "reachable price (step price op m)" by (rule reachable_step)
  from Cons.IH [OF this] show ?case by (simp add: run_def)
qed

lemma open_store_reachable: "reachable (49 / 4) open_store"
  unfolding open_store_def fresh_store_def by (intro run_reachable reachable_new)

lemma closed_store_reachable: "reachable (49 / 4) closed_store"
  unfolding closed_store_def by (intro run_reachable open_store_reachable)

lemma unit_open_store_reachable: "reachable (49 / 4) unit_open_store"
  unfolding unit_open_store_def by (intro run_reachable reachable_new)

lemma short_store_reachable: "reachable (49 / 4) short_store"
  unfolding short_store_def by (intro run_reachable unit_open_store_reachable)

lemma half_second_store_reachable: "reachable (49 / 4) half_second_store"
  unfolding half_second_store_def by (intro run_reachable unit_open_store_reachable)

lemma failed_close_reachable: "reachable (49 / 4) failed_close_store"
  unfolding failed_close_store_def by (intro run_reachable open_store_reachable)

lemma double_open_reachable: "reachable (49 / 4) double_open_store"
  unfolding double_open_store_def by (intro run_reachable failed_close_reachable)

section \<open>Requesting the state the dispenser is already in\<close>

text \<open>
  C2. For an existing dispenser, a state among OPEN and CLOSE and a valid timestamp: when
  the dispenser is already in the requested state, \<open>changeDispenserStatus\<close> returns the
  ``already in the desired state'' result, throws nothing, and the manager afterwards is
  the manager before: the dispenser's state and \<open>updated_at\<close>, every usage sequence and
  every running total are unchanged.
\<close>

theorem same_state_no_change:
  assumes "find_dispenser i m = Some d" and "st = OPEN \<or> st = CLOSE" and "state d = st"
  shows "changeDispenserStatus price i st (Date t) m = (Inr AlreadyInDesiredState, m)"
  using assms by (auto simp: changeDispenserStatus_def)

theorem same_state_no_change_witness:
  "find_dispenser ''tap-1'' fresh_store =
     Some \<lparr>disp_id = ''tap-1'', flow_volume = Fin (1 / 2), state = CLOSE, updated_at = 0\<rparr>
   \<and> changeDispenserStatus (49 / 4) ''tap-1'' CLOSE (Date 5) fresh_store
       = (Inr AlreadyInDesiredState, fresh_store)"
proof -
  have f: "find_dispenser ''tap-1'' fresh_store =
     Some \<lparr>disp_id = ''tap-1'', flow_volume = Fin (1 / 2), state = CLOSE, updated_at = 0\<rparr>"
    by (simp add: fresh_store_eval find_dispenser_def)
  from same_state_no_change [OF f, of CLOSE "49 / 4" 5] f show ?thesis by simp
qed

section \<open>A ledger failure after the dispenser was written\<close>

text \<open>
  C4. When \<open>changeDispenserStatus\<close> throws the date-order error, the dispenser existed,
  was in another state than the requested one and the timestamp was valid; the dispenser
  found afterwards has the requested state and the supplied timestamp as \<open>updated_at\<close>
  (nothing is rolled back), while the usage sequences and the running totals are those
  from before the call: no period was appended or closed.
\<close>

theorem no_rollback:
  assumes "changeDispenserStatus price i st ts m = (Inl InvalidDateOrder, m')"
  shows "\<exists>d0 t. find_dispenser i m = Some d0 \<and> state d0 \<noteq> st \<and> ts = Date t
           \<and> find_dispenser i m' = Some (d0\<lparr>state := st, updated_at := t\<rparr>)
           \<and> statusChanges m' = statusChanges m
           \<and> totalSpentPerDispenser m' = totalSpentPerDispenser m"
proof (cases "find_dispenser i m")
  case None
  with assms show ?thesis by (simp add: changeDispenserStatus_def)
next
  case (Some d0)
  then have fd: "find (\<lambda>x. disp_id x = i) (dispensers m) = Some d0"
    by (simp add: find_dispenser_def)
  have idd: "disp_id d0 = i" using Some by (rule find_dispenser_id)
  from assms Some obtain t where ts: "ts = Date t" and ne: "state d0 \<noteq> st"
    by (cases ts) (auto simp: changeDispenserStatus_def split: if_splits)
  let ?d = "d0\<lparr>state := st, updated_at := t\<rparr>"
  have upd: "find (\<lambda>x. disp_id x = i)
               (update_first (\<lambda>x. disp_id x = i) (\<lambda>_. ?d) (dispensers m)) = Some ?d"
    using find_update_first [OF fd, of "\<lambda>_. ?d"] idd by simp
  from assms Some ts ne have
    m': "m' = m\<lparr>dispensers := update_first (\<lambda>x. disp_id x = i) (\<lambda>_. ?d) (dispensers m)\<rparr>"
    by (auto simp: changeDispenserStatus_def Let_def updateTotalSpentPerDispenser_def
        split: if_splits option.splits)
  show ?thesis using Some ts ne upd by (simp add: m' find_dispenser_def)
qed

theorem no_rollback_witness:
  "changeDispenserStatus (49 / 4) ''tap-1'' CLOSE (Date 5000) open_store
     = (Inl InvalidDateOrder, failed_close_store)
   \<and> find_dispenser ''tap-1'' failed_close_store
        = Some \<lparr>disp_id = ''tap-1'', flow_volume = Fin (1 / 2), state = CLOSE, updated_at = 5000\<rparr>
   \<and> statusChanges failed_close_store = statusChanges open_store
   \<and> totalSpentPerDispenser failed_close_store = totalSpentPerDispenser open_store"
  using no_rollback [OF failed_close_eval] failed_close_eval
  by (auto simp: open_store_eval find_dispenser_def)

section \<open>Spending of unknown and of never opened dispensers\<close>

text \<open>
  C8. \<open>getSpending\<close> throws ``dispenser not found'' exactly when no dispenser of the store
  has the id; for a dispenser of the store with no entry in \<open>statusChanges\<close> (never
  opened) it returns the amount 0 and no usages, and changes nothing.
\<close>

theorem getSpending_not_found_iff:
  "(fst (getSpending price now i m) = Inl DispenserNotFound) = (i \<notin> disp_id ` set (dispensers m))
   \<and> (i \<in> disp_id ` set (dispensers m) \<and> statusChanges m i = None \<longrightarrow>
        getSpending price now i m = (Inr \<lparr>amount = Fin 0, usages = []\<rparr>, m))"
  by (auto simp: getSpending_def Let_def find_dispenser_None [symmetric]
      split: option.splits)

theorem getSpending_not_found_iff_witness:
  "fst (getSpending (49 / 4) 7 ''tap-2'' fresh_store) = Inl DispenserNotFound
   \<and> ''tap-2'' \<notin> disp_id ` set (dispensers fresh_store)
   \<and> ''tap-1'' \<in> disp_id ` set (dispensers fresh_store)
   \<and> statusChanges fresh_store ''tap-1'' = None
   \<and> getSpending (49 / 4) 7 ''tap-1'' fresh_store
        = (Inr \<lparr>amount = Fin 0, usages = []\<rparr>, fresh_store)"
proof -
  have a: "''tap-2'' \<notin> disp_id ` set (dispensers fresh_store)"
    and b: "''tap-1'' \<in> disp_id ` set (dispensers fresh_store)"
    and c: "statusChanges fresh_store ''tap-1'' = None"
    by (simp_all add: fresh_store_eval)
  from getSpending_not_found_iff [of "49 / 4" 7 "''tap-2''" fresh_store]
    getSpending_not_found_iff [of "49 / 4" 7 "''tap-1''" fresh_store] a b c
  show ?thesis by simp
qed

section \<open>Creating a dispenser\<close>

text \<open>
  What \<open>createDispenser\<close> does on every input: it throws for a value that is not of type
  number and for a number with \<open>n <= 0\<close>, and otherwise appends and returns a dispenser
  with the generated id, the given flow volume, state CLOSE and the creation time.
\<close>

lemma createDispenser_cases:
  "createDispenser uid now fv m =
     (if (\<exists>n. fv = VNum n \<and> \<not> js_le n (Fin 0))
      then (Inr \<lparr>disp_id = uid, flow_volume = (case fv of VNum n \<Rightarrow> n), state = CLOSE, updated_at = now\<rparr>,
            m\<lparr>dispensers := dispensers m @
               [\<lparr>disp_id = uid, flow_volume = (case fv of VNum n \<Rightarrow> n), state = CLOSE, updated_at = now\<rparr>]\<rparr>)
      else (Inl InvalidFlowVolume, m))"
  by (cases fv) (auto simp: createDispenser_def Let_def)

text \<open>
  C9. A flow volume that is not a positive number must be refused. NaN is a number by
  \<open>typeof\<close> and \<open>NaN <= 0\<close> is false, so \<open>createDispenser(NaN)\<close> throws nothing: it
  appends and returns a dispenser whose flow volume is NaN.
\<close>

theorem createDispenser_NaN:
  "createDispenser uid now (VNum NaN) m =
     (Inr \<lparr>disp_id = uid, flow_volume = NaN, state = CLOSE, updated_at = now\<rparr>,
      m\<lparr>dispensers := dispensers m @
          [\<lparr>disp_id = uid, flow_volume = NaN, state = CLOSE, updated_at = now\<rparr>]\<rparr>)"
  by (simp add: createDispenser_def js_le_def Let_def)

section \<open>The date-order check\<close>

text \<open>
  C1 as stated, for every dispenser whose last period is open: a close request dated at or
  before \<open>opened_at\<close> throws the date-order error, a later one succeeds. This fails in
  the store reached by creating a tap, opening it at 10 s and sending a close request
  dated 5 s (which throws after the state was written): the last period is open, yet
  close requests dated 5 s and 20 s neither throw nor succeed, they return the
  ``already in the desired state'' result.
\<close>

theorem date_order_counterexample:
  "reachable (49 / 4) failed_close_store
   \<and> statusChanges failed_close_store ''tap-1'' = Some [\<lparr>opened_at = 10000, closed_at = None,
         usage_flow_volume = Fin (1 / 2), total_spent = None\<rparr>]
   \<and> fst (changeDispenserStatus (49 / 4) ''tap-1'' CLOSE (Date 5000) failed_close_store)
        = Inr AlreadyInDesiredState
   \<and> fst (changeDispenserStatus (49 / 4) ''tap-1'' CLOSE (Date 20000) failed_close_store)
        = Inr AlreadyInDesiredState"
  using failed_close_reachable
  by (simp add: failed_close_store_eval changeDispenserStatus_def find_dispenser_def)

text \<open>
  C1, amended: for a dispenser whose current state differs from the requested one and
  whose usage sequence is not empty. A close request with the last period open throws
  the date-order error when its timestamp is at or before that period's \<open>opened_at\<close> and
  succeeds when it is later; an open request with the last period closed throws the
  date-order error when its timestamp is at or before that period's \<open>closed_at\<close> and
  succeeds when it is later.
\<close>

theorem date_order:
  assumes "find_dispenser i m = Some d" and "statusChanges m i = Some scs" and "scs \<noteq> []"
  shows "(state d \<noteq> CLOSE \<and> closed_at (last scs) = None \<longrightarrow>
            (t \<le> opened_at (last scs) \<longrightarrow>
               fst (changeDispenserStatus price i CLOSE (Date t) m) = Inl InvalidDateOrder)
          \<and> (opened_at (last scs) < t \<longrightarrow>
               fst (changeDispenserStatus price i CLOSE (Date t) m)
                 = Inr (Success (d\<lparr>state := CLOSE, updated_at := t\<rparr>))))
       \<and> (state d \<noteq> OPEN \<longrightarrow> (\<forall>c. closed_at (last scs) = Some c \<longrightarrow>
            (t \<le> c \<longrightarrow>
               fst (changeDispenserStatus price i OPEN (Date t) m) = Inl InvalidDateOrder)
          \<and> (c < t \<longrightarrow>
               fst (changeDispenserStatus price i OPEN (Date t) m)
                 = Inr (Success (d\<lparr>state := OPEN, updated_at := t\<rparr>)))))"
  using assms by (auto simp: changeDispenserStatus_def Let_def)

theorem date_order_witness:
  "fst (changeDispenserStatus (49 / 4) ''tap-1'' CLOSE (Date 10000) open_store) = Inl InvalidDateOrder
   \<and> fst (changeDispenserStatus (49 / 4) ''tap-1'' CLOSE (Date 10001) open_store)
       = Inr (Success \<lparr>disp_id = ''tap-1'', flow_volume = Fin (1 / 2), state = CLOSE, updated_at = 10001\<rparr>)
   \<and> fst (changeDispenserStatus (49 / 4) ''tap-1'' OPEN (Date 10200) closed_store) = Inl InvalidDateOrder
   \<and> fst (changeDispenserStatus (49 / 4) ''tap-1'' OPEN (Date 10201) closed_store)
       = Inr (Success \<lparr>disp_id = ''tap-1'', flow_volume = Fin (1 / 2), state = OPEN, updated_at = 10201\<rparr>)"
proof -
  have f1: "find_dispenser ''tap-1'' open_store
      = Some \<lparr>disp_id = ''tap-1'', flow_volume = Fin (1 / 2), state = OPEN, updated_at = 10000\<rparr>"
    and s1: "statusChanges open_store ''tap-1'' = Some [\<lparr>opened_at = 10000, closed_at = None,
         usage_flow_volume = Fin (1 / 2), total_spent = None\<rparr>]"
    by (simp_all add: open_store_eval find_dispenser_def)
  have f2: "find_dispenser ''tap-1'' closed_store
      = Some \<lparr>disp_id = ''tap-1'', flow_volume = Fin (1 / 2), state = CLOSE, updated_at = 10200\<rparr>"
    and s2: "statusChanges closed_store ''tap-1'' = Some [\<lparr>opened_at = 10000, closed_at = Some 10200,
         usage_flow_volume = Fin (1 / 2), total_spent = Some (cents 123)\<rparr>]"
    by (simp_all add: closed_store_eval find_dispenser_def)
  from date_order [OF f1 s1, of 10000 "49 / 4"] date_order [OF f1 s1, of 10001 "49 / 4"]
    date_order [OF f2 s2, of 10200 "49 / 4"] date_order [OF f2 s2, of 10201 "49 / 4"]
  show ?thesis by simp
qed

section \<open>Spending of a dispenser that is open\<close>

text \<open>
  C5. \<open>getSpending\<close> on an open period must leave the stored running total as it was.
  In the store with the tap opened at 10 s and no total stored yet, \<open>getSpending\<close> at
  11.23 s leaves the period open but stores 7.53 as the running total; asked again at the
  same instant it returns the amount 15.06 for a single period whose \<open>total_spent\<close> is
  7.53.
\<close>

theorem getSpending_changes_total:
  "statusChanges open_store ''tap-1'' = Some [\<lparr>opened_at = 10000, closed_at = None,
         usage_flow_volume = Fin (1 / 2), total_spent = None\<rparr>]
   \<and> totalSpentPerDispenser open_store ''tap-1'' = None
   \<and> totalSpentPerDispenser (snd (getSpending (49 / 4) 11230 ''tap-1'' open_store)) ''tap-1''
       = Some (cents 753)
   \<and> fst (getSpending (49 / 4) 11230 ''tap-1'' (snd (getSpending (49 / 4) 11230 ''tap-1'' open_store)))
       = Inr \<lparr>amount = cents 1506, usages = [\<lparr>opened_at = 10000, closed_at = None,
         usage_flow_volume = Fin (1 / 2), total_spent = Some (cents 753)\<rparr>]\<rparr>"
  by (simp add: open_store_eval eval_defs example_arith)

section \<open>Order of the usage periods\<close>

text \<open>
  C6. In every reachable store the periods of a dispenser must be ordered in time with at
  most one open period, the last one. After creating a tap, opening it at 10 s, a close
  request dated 5 s (which throws, the state being already written) and an open request
  dated 7 s (which succeeds), the tap has two open periods, the second one opened before
  the first.
\<close>

theorem two_open_periods:
  "reachable (49 / 4) double_open_store
   \<and> fst (changeDispenserStatus (49 / 4) ''tap-1'' OPEN (Date 7000) failed_close_store)
       = Inr (Success \<lparr>disp_id = ''tap-1'', flow_volume = Fin (1 / 2), state = OPEN, updated_at = 7000\<rparr>)
   \<and> statusChanges double_open_store ''tap-1''
     = Some [\<lparr>opened_at = 10000, closed_at = None, usage_flow_volume = Fin (1 / 2), total_spent = None\<rparr>,
             \<lparr>opened_at = 7000, closed_at = None, usage_flow_volume = Fin (1 / 2), total_spent = None\<rparr>]"
proof -
  have "fst (changeDispenserStatus (49 / 4) ''tap-1'' OPEN (Date 7000) failed_close_store)
       = Inr (Success \<lparr>disp_id = ''tap-1'', flow_volume = Fin (1 / 2), state = OPEN, updated_at = 7000\<rparr>)"
    by (simp add: failed_close_store_eval eval_defs)
  moreover have "statusChanges double_open_store ''tap-1''
     = Some [\<lparr>opened_at = 10000, closed_at = None, usage_flow_volume = Fin (1 / 2), total_spent = None\<rparr>,
             \<lparr>opened_at = 7000, closed_at = None, usage_flow_volume = Fin (1 / 2), total_spent = None\<rparr>]"
    by (simp add: double_open_store_def failed_close_store_eval eval_defs)
  ultimately show ?thesis using double_open_reachable by blast
qed

section \<open>How a call changes the store\<close>

lemma map_update_first:
  "(\<And>x. P x \<Longrightarrow> g (f x) = g x) \<Longrightarrow> map g (update_first P f xs) = map g xs"
  by (induction xs) auto

lemma createDispenser_ledger: "statusChanges (snd (createDispenser uid now fv m)) = statusChanges m"
  by (simp add: createDispenser_cases)

lemma changeDispenserStatus_ledger_other:
  "j \<noteq> i \<Longrightarrow> statusChanges (snd (changeDispenserStatus price i st ts m)) j = statusChanges m j"
  by (auto simp: changeDispenserStatus_def Let_def updateTotalSpentPerDispenser_def
      split: option.splits jsdate.splits)

lemma changeDispenserStatus_ledger_absent:
  "find_dispenser i m = None \<Longrightarrow> snd (changeDispenserStatus price i st ts m) = m"
  by (simp add: changeDispenserStatus_def)

lemma changeDispenserStatus_ledger_same:
  "ledger_step price (statusChanges m i) (statusChanges (snd (changeDispenserStatus price i st ts m)) i)"
proof (cases "find_dispenser i m")
  case None
  then show ?thesis by (simp add: changeDispenserStatus_def ledger_step_def)
next
  case (Some d0)
  show ?thesis
  proof (cases ts)
    case InvalidDate
    then show ?thesis using Some by (simp add: changeDispenserStatus_def ledger_step_def)
  next
    case (Date t)
    show ?thesis
    proof (cases "statusChanges m i")
      case None
      then show ?thesis using Some Date
        by (auto simp: changeDispenserStatus_def Let_def ledger_step_def)
    next
      case (Some scs)
      then show ?thesis using \<open>find_dispenser i m = Some d0\<close> Date
        by (auto simp: changeDispenserStatus_def Let_def ledger_step_def
            updateTotalSpentPerDispenser_def closed_has_total_def)
    qed
  qed
qed

lemma getSpending_ledger_other:
  "j \<noteq> i \<Longrightarrow> statusChanges (snd (getSpending price now i m)) j = statusChanges m j"
  by (auto simp: getSpending_def Let_def updateTotalSpentPerDispenser_def split: option.splits)

lemma getSpending_ledger_same:
  "ledger_step price (statusChanges m i) (statusChanges (snd (getSpending price now i m)) i)"
  by (auto simp: getSpending_def Let_def updateTotalSpentPerDispenser_def ledger_step_def
      closed_has_total_def split: option.splits)

lemma step_ledger: "ledger_step price (statusChanges m j) (statusChanges (step price op m) j)"
proof (cases op)
  case (CreateDispenserOp uid now fv)
  then show ?thesis by (simp add: createDispenser_ledger ledger_step_def)
next
  case (ChangeStatusOp i st ts)
  then show ?thesis
    using changeDispenserStatus_ledger_same [of price m i st ts]
      changeDispenserStatus_ledger_other [of j i price st ts m]
    by (cases "j = i") (simp_all add: ledger_step_def)
next
  case (GetSpendingOp now i)
  then show ?thesis
    using getSpending_ledger_same [of price m i now] getSpending_ledger_other [of j i price now m]
    by (cases "j = i") (simp_all add: ledger_step_def)
qed

lemma step_ids_prefix:
  "take (length (dispensers m)) (map disp_id (dispensers (step price op m))) = map disp_id (dispensers m)"
proof (cases op)
  case (CreateDispenserOp uid now fv)
  then show ?thesis by (simp add: createDispenser_cases)
next
  case (ChangeStatusOp i st ts)
  show ?thesis
  proof (cases "find_dispenser i m")
    case None
    then show ?thesis using ChangeStatusOp by (simp add: changeDispenserStatus_def)
  next
    case (Some d0)
    then have "disp_id d0 = i" by (rule find_dispenser_id)
    then have "\<And>t. map disp_id (update_first (\<lambda>x. disp_id x = i)
        (\<lambda>_. d0\<lparr>state := st, updated_at := t\<rparr>) (dispensers m)) = map disp_id (dispensers m)"
      by (intro map_update_first) simp
    then show ?thesis using ChangeStatusOp Some
      by (auto simp: changeDispenserStatus_def Let_def updateTotalSpentPerDispenser_def
          split: option.splits jsdate.splits)
  qed
next
  case (GetSpendingOp now i)
  then show ?thesis
    by (auto simp: getSpending_def Let_def updateTotalSpentPerDispenser_def split: option.splits)
qed

lemma step_ids_mono: "j \<in> disp_id ` set (dispensers m) \<Longrightarrow> j \<in> disp_id ` set (dispensers (step price op m))"
proof -
  assume "j \<in> disp_id ` set (dispensers m)"
  then have "j \<in> set (map disp_id (dispensers m))" by simp
  then have "j \<in> set (take (length (dispensers m)) (map disp_id (dispensers (step price op m))))"
    by (simp only: step_ids_prefix)
  then have "j \<in> set (map disp_id (dispensers (step price op m)))" by (rule in_set_takeD)
  then show ?thesis by simp
qed

lemma step_ledger_new_key:
  "statusChanges m j = None \<Longrightarrow> statusChanges (step price op m) j \<noteq> None
     \<Longrightarrow> j \<in> disp_id ` set (dispensers m)"
proof (cases op)
  case (CreateDispenserOp uid now fv)
  assume "statusChanges m j = None" "statusChanges (step price op m) j \<noteq> None"
  then show ?thesis using CreateDispenserOp by (simp add: createDispenser_ledger)
next
  case (ChangeStatusOp i st ts)
  assume a: "statusChanges m j = None" "statusChanges (step price op m) j \<noteq> None"
  then have "j = i" using ChangeStatusOp
    by (cases "j = i") (auto simp: changeDispenserStatus_ledger_other)
  moreover have "find_dispenser i m \<noteq> None"
  proof
    assume "find_dispenser i m = None"
    then have "snd (changeDispenserStatus price i st ts m) = m"
      by (rule changeDispenserStatus_ledger_absent)
    then show False using a ChangeStatusOp \<open>j = i\<close> by simp
  qed
  ultimately show ?thesis by (simp add: find_dispenser_None)
next
  case (GetSpendingOp now i)
  assume a: "statusChanges m j = None" "statusChanges (step price op m) j \<noteq> None"
  then show ?thesis using GetSpendingOp
    by (auto simp: getSpending_def Let_def updateTotalSpentPerDispenser_def split: option.splits if_splits)
qed

lemma reachable_ledger_dom:
  "reachable price m \<Longrightarrow> statusChanges m j \<noteq> None \<Longrightarrow> j \<in> disp_id ` set (dispensers m)"
proof (induction arbitrary: j rule: reachable.induct)
  case reachable_new
  then show ?case by (simp add: new_manager_def)
next
  case (reachable_step m op)
  show ?case
  proof (cases "statusChanges m j")
    case None
    from step_ledger_new_key [OF None reachable_step.prems]
    show ?thesis by (rule step_ids_mono)
  next
    case (Some scs)
    then have "j \<in> disp_id ` set (dispensers m)" using reachable_step.IH by simp
    then show ?thesis by (rule step_ids_mono)
  qed
qed

lemma reachable_closed_has_total:
  "reachable price m \<Longrightarrow> statusChanges m j = Some scs \<Longrightarrow> p \<in> set scs
     \<Longrightarrow> closed_has_total price p"
proof (induction arbitrary: j scs p rule: reachable.induct)
  case reachable_new
  then show ?case by (simp add: new_manager_def)
next
  case (reachable_step m op)
  have ls: "ledger_step price (statusChanges m j) (Some scs)"
    using step_ledger [of price m j op] reachable_step.prems(1) by simp
  then consider (same) "statusChanges m j = Some scs"
    | (push) sc where "closed_at sc = None"
        "scs = (case statusChanges m j of None \<Rightarrow> [sc] | Some old \<Rightarrow> old @ [sc])"
    | (last) old l where "statusChanges m j = Some old" "old \<noteq> []" "scs = butlast old @ [l]"
        "closed_has_total price l"
    unfolding ledger_step_def by auto
  then show ?case
  proof cases
    case same
    then show ?thesis using reachable_step.IH reachable_step.prems(2) by blast
  next
    case push
    show ?thesis
    proof (cases "statusChanges m j")
      case None
      then show ?thesis using push reachable_step.prems(2) by (simp add: closed_has_total_def)
    next
      case (Some old)
      then have "p \<in> set old \<or> p = sc" using push reachable_step.prems(2) by auto
      then show ?thesis using reachable_step.IH [OF Some] push(1)
        by (auto simp: closed_has_total_def)
    qed
  next
    case last
    then have "p \<in> set (butlast old) \<or> p = l" using reachable_step.prems(2) by auto
    then show ?thesis using reachable_step.IH [OF last(1)] last(4)
      by (auto dest: in_set_butlastD)
  qed
qed

section \<open>The amount of a closed period\<close>

text \<open>Below \<open>10^21\<close>, \<open>Number(x.toFixed(2))\<close> is the double of a multiple of 0.01 at most
  0.005 away from \<open>x\<close>, and a non-negative \<open>x\<close> halfway between two multiples goes to the
  upper one.\<close>

lemma toFixed2_nearest:
  assumes small: "\<bar>x\<bar> < 10 ^ 21"
  shows "\<exists>n::int. toFixed2 (Fin x) = cents n \<and> \<bar>of_int n / 100 - x\<bar> \<le> 1 / 200"
proof -
  define k where "k = \<lfloor>\<bar>x\<bar> * 100 + 1 / 2\<rfloor>"
  have lo: "of_int k \<le> \<bar>x\<bar> * 100 + 1 / 2" and hi: "\<bar>x\<bar> * 100 + 1 / 2 < of_int k + 1"
    unfolding k_def by linarith+
  have tf: "toFixed2 (Fin x) = (if x < 0 then cents (- k) else cents k)"
    using small by (simp add: k_def)
  consider (neg) "x < 0" | (zero) "x = 0" | (pos) "0 < x" by linarith
  then show ?thesis
  proof cases
    case neg
    have "toFixed2 (Fin x) = cents (- k)" using neg tf by simp
    moreover have "\<bar>of_int (- k) / 100 - x\<bar> \<le> 1 / 200"
    proof -
      have "\<bar>x\<bar> = - x" using neg by simp
      with lo hi have "real_of_int k \<le> - x * 100 + 1 / 2" "- x * 100 + 1 / 2 < real_of_int k + 1"
        by simp_all
      then have "\<bar>- real_of_int k / 100 - x\<bar> \<le> 1 / 200" by linarith
      then show ?thesis by (simp only: of_int_minus)
    qed
    ultimately show ?thesis by blast
  next
    case zero
    then have "k = 0" by (simp add: k_def)
    then have "toFixed2 (Fin x) = cents 0" using zero tf by simp
    moreover have "\<bar>of_int 0 / 100 - x\<bar> \<le> 1 / 200" using zero by simp
    ultimately show ?thesis by blast
  next
    case pos
    have "toFixed2 (Fin x) = cents k" using pos tf by simp
    moreover have "\<bar>of_int k / 100 - x\<bar> \<le> 1 / 200"
    proof -
      have "\<bar>x\<bar> = x" using pos by simp
      with lo hi have "real_of_int k \<le> x * 100 + 1 / 2" "x * 100 + 1 / 2 < real_of_int k + 1"
        by simp_all
      then show ?thesis by linarith
    qed
    ultimately show ?thesis by blast
  qed
qed

lemma toFixed2_tie:
  assumes "0 \<le> k" and tie: "x * 100 = of_int k + 1 / 2" and small: "\<bar>x\<bar> < 10 ^ 21"
  shows "toFixed2 (Fin x) = cents (k + 1)"
proof -
  have "0 < real_of_int k + 1 / 2" using assms(1) by simp
  then have "0 < x * 100" by (simp only: tie)
  then have pos: "0 < x" by simp
  then have "\<bar>x\<bar> * 100 + 1 / 2 = of_int (k + 1)" using tie by simp
  then have "\<lfloor>\<bar>x\<bar> * 100 + 1 / 2\<rfloor> = k + 1" by (simp only: floor_of_int)
  then show ?thesis using pos small by simp
qed

text \<open>
  C3 as stated: a closed period carries the exact product of the elapsed seconds, the
  flow volume and the price, rounded to two decimals by standard rounding. For a tap of
  flow 1 at a price of 12.25, opened at 10 s and closed 20 ms later, the exact product
  is 0.245 and standard rounding gives 0.25. The code multiplies doubles: 0.02 is
  not a binary64 value, the product it computes lies just below 0.245, and the period
  carries 0.24.
\<close>

theorem closed_period_total_counterexample:
  "reachable (49 / 4) short_store
   \<and> statusChanges short_store ''tap-1'' = Some [\<lparr>opened_at = 10000, closed_at = Some 10020,
         usage_flow_volume = Fin 1, total_spent = Some (cents 24)\<rparr>]
   \<and> real_of_int (10020 - 10000) / 1000 * 1 * (49 / 4) = 245 / 1000
   \<and> \<lfloor>(245 / 1000 :: real) * 100 + 1 / 2\<rfloor> = 25
   \<and> cents 24 \<noteq> cents 25
   \<and> js_mul (js_mul (div1000 (date_diff 10020 10000)) (Fin 1)) (Fin (49 / 4))
        = Fin (2206763817411543 / 9007199254740992)
   \<and> (2206763817411543 / 9007199254740992 :: real) < 245 / 1000"
proof -
  have "real_of_int (10020 - 10000) / 1000 * 1 * (49 / 4) = 245 / 1000"
    and "\<lfloor>(245 / 1000 :: real) * 100 + 1 / 2\<rfloor> = 25"
    by simp_all
  moreover have "statusChanges short_store ''tap-1'' = Some [\<lparr>opened_at = 10000,
         closed_at = Some 10020, usage_flow_volume = Fin 1,
         total_spent = Some (cents 24)\<rparr>]"
    by (simp add: short_store_eval)
  moreover have "(2206763817411543 / 9007199254740992 :: real) < 245 / 1000" by simp
  ultimately show ?thesis using short_store_reachable cents_24_25 product_20ms by blast
qed

text \<open>
  C3, amended. In every reachable store, a period that has been closed carries as
  \<open>total_spent\<close> the value of the calculator for its \<open>opened_at\<close>, its \<open>closed_at\<close> and
  its flow volume. That value is the elapsed time in seconds multiplied by the flow
  volume and by the price, each operation carried out in double precision, and the
  resulting double \<open>x\<close> (when finite and below \<open>10^21\<close>) rounded to two decimals by
  standard rounding: the double of a multiple of 0.01 at most 0.005 away from \<open>x\<close>, the
  upper one when \<open>x\<close> lies halfway. Computing the value has no side effects: the call
  hands every manager on as it received it.
\<close>

theorem closed_period_total:
  assumes "reachable price m" and "statusChanges m i = Some scs" and "p \<in> set scs"
    and "closed_at p = Some c"
  shows "total_spent p = Some (calculateTotalSpent price (opened_at p) c (usage_flow_volume p))
    \<and> (\<forall>x. js_mul (js_mul (div1000 (date_diff c (opened_at p))) (usage_flow_volume p)) (Fin price)
              = Fin x \<and> \<bar>x\<bar> < 10 ^ 21 \<longrightarrow>
          (\<exists>n::int. total_spent p = Some (cents n) \<and> \<bar>of_int n / 100 - x\<bar> \<le> 1 / 200)
          \<and> (\<forall>k. 0 \<le> k \<and> x * 100 = of_int k + 1 / 2 \<longrightarrow>
                total_spent p = Some (cents (k + 1))))
    \<and> (\<forall>s. calculateTotalSpent_call price (opened_at p) c (usage_flow_volume p) s
              = (calculateTotalSpent price (opened_at p) c (usage_flow_volume p), s))"
proof -
  let ?product = "js_mul (js_mul (div1000 (date_diff c (opened_at p))) (usage_flow_volume p)) (Fin price)"
  have "closed_has_total price p" using assms(1-3) by (rule reachable_closed_has_total)
  then have t: "total_spent p = Some (calculateTotalSpent price (opened_at p) c (usage_flow_volume p))"
    using assms(4) by (simp add: closed_has_total_def)
  have calc: "calculateTotalSpent price (opened_at p) c (usage_flow_volume p) = toFixed2 ?product"
    by (simp add: calculateTotalSpent_def)
  have near: "\<exists>n::int. total_spent p = Some (cents n) \<and> \<bar>of_int n / 100 - x\<bar> \<le> 1 / 200"
    if prod: "?product = Fin x" and small: "\<bar>x\<bar> < 10 ^ 21" for x
  proof -
    obtain n :: int where
      "toFixed2 (Fin x) = cents n" "\<bar>of_int n / 100 - x\<bar> \<le> 1 / 200"
      using toFixed2_nearest [OF small] by blast
    then show ?thesis using t calc prod by auto
  qed
  have tie: "total_spent p = Some (cents (k + 1))"
    if prod: "?product = Fin x" and small: "\<bar>x\<bar> < 10 ^ 21" and k: "0 \<le> k"
      and half: "x * 100 = of_int k + 1 / 2" for x k
    using toFixed2_tie [OF k half small] t calc prod by simp
  have pure: "calculateTotalSpent_call price (opened_at p) c (usage_flow_volume p) s
              = (calculateTotalSpent price (opened_at p) c (usage_flow_volume p), s)" for s
    by (simp add: calculateTotalSpent_call_def)
  show ?thesis using t near tie pure by blast
qed

theorem closed_period_total_witness:
  "reachable (49 / 4) half_second_store
   \<and> statusChanges half_second_store ''tap-1'' = Some [\<lparr>opened_at = 10000, closed_at = Some 10500,
         usage_flow_volume = Fin 1, total_spent = Some (cents 613)\<rparr>]
   \<and> js_mul (js_mul (div1000 (date_diff 10500 10000)) (Fin 1)) (Fin (49 / 4)) = Fin (49 / 8)
   \<and> Some (cents 613) = Some (calculateTotalSpent (49 / 4) 10000 10500 (Fin 1))
   \<and> (\<exists>n::int. Some (cents 613) = Some (cents n)
         \<and> \<bar>of_int n / 100 - 49 / 8\<bar> \<le> (1 / 200 :: real))
   \<and> (49 / 8 :: real) * 100 = of_int 612 + 1 / 2
   \<and> Some (cents 613) = Some (cents (612 + 1))
   \<and> calculateTotalSpent_call (49 / 4) 10000 10500 (Fin 1) new_manager
        = (calculateTotalSpent (49 / 4) 10000 10500 (Fin 1), new_manager)"
proof -
  let ?p = "\<lparr>opened_at = 10000, closed_at = Some 10500,
         usage_flow_volume = Fin 1, total_spent = Some (cents 613)\<rparr>"
  have sc: "statusChanges half_second_store ''tap-1'' = Some [?p]"
    by (simp add: half_second_store_eval)
  have mem: "?p \<in> set [?p]" by simp
  have cl: "closed_at ?p = Some 10500" by simp
  have prod: "js_mul (js_mul (div1000 (date_diff 10500 10000)) (Fin 1)) (Fin (49 / 4)) = Fin (49 / 8)"
    by (rule product_500ms)
  have small: "\<bar>49 / 8 :: real\<bar> < 10 ^ 21" by simp
  have tie: "(49 / 8 :: real) * 100 = of_int 612 + 1 / 2" by simp
  have k: "(0::int) \<le> 612" by simp
  from closed_period_total [OF half_second_store_reachable sc mem cl,
      unfolded statusChange.select_convs] have
    a: "Some (cents 613) = Some (calculateTotalSpent (49 / 4) 10000 10500 (Fin 1))"
    and b: "\<forall>x. js_mul (js_mul (div1000 (date_diff 10500 10000)) (Fin 1)) (Fin (49 / 4))
              = Fin x \<and> \<bar>x\<bar> < 10 ^ 21 \<longrightarrow>
          (\<exists>n::int. Some (cents 613) = Some (cents n) \<and> \<bar>of_int n / 100 - x\<bar> \<le> 1 / 200)
          \<and> (\<forall>k. 0 \<le> k \<and> x * 100 = of_int k + 1 / 2 \<longrightarrow>
                Some (cents 613) = Some (cents (k + 1)))"
    and c: "\<forall>s. calculateTotalSpent_call (49 / 4) 10000 10500 (Fin 1) s
              = (calculateTotalSpent (49 / 4) 10000 10500 (Fin 1), s)"
    by blast+
  from b prod small have
    n: "\<exists>n::int. Some (cents 613) = Some (cents n)
         \<and> \<bar>of_int n / 100 - 49 / 8\<bar> \<le> (1 / 200 :: real)"
    and t: "\<forall>k. 0 \<le> k \<and> (49 / 8 :: real) * 100 = of_int k + 1 / 2 \<longrightarrow>
                Some (cents 613) = Some (cents (k + 1))"
    by blast+
  from t k tie have "Some (cents 613) = Some (cents (612 + 1))"
    by blast
  with half_second_store_reachable sc prod a n tie c show ?thesis by blast
qed

section \<open>Open, close, then ask for the spending\<close>

lemma find_append_fresh:
  "\<forall>x \<in> set xs. \<not> P x \<Longrightarrow> P d \<Longrightarrow> find P (xs @ [d]) = Some d"
  by (induction xs) auto

lemma getSpending_closed:
  assumes "find_dispenser i m = Some d" and "statusChanges m i = Some scs" and "scs \<noteq> []"
    and "closed_at (last scs) = Some c"
  shows "getSpending price now i m
           = (Inr \<lparr>amount = or_zero (totalSpentPerDispenser m i), usages = scs\<rparr>, m)"
  using assms by (simp add: getSpending_def)


text \<open>
  C7. A dispenser is created in a reachable store with an id no dispenser has yet; an
  open request at \<open>T0\<close> succeeds and then a close request at \<open>T1\<close> succeeds. Then
  \<open>getSpending\<close> returns exactly one usage, opened at \<open>T0\<close>, closed at \<open>T1\<close>, with the
  dispenser's flow volume and with the calculator's value for \<open>(T0, T1, flow_volume)\<close> as
  \<open>total_spent\<close>.
\<close>

theorem round_trip:
  assumes reach: "reachable price m"
    and fresh: "uid \<notin> disp_id ` set (dispensers m)"
    and create: "createDispenser uid now fv m = (Inr d, m1)"
    and opened: "changeDispenserStatus price (disp_id d) OPEN (Date T0) m1 = (Inr (Success d2), m2)"
    and closed: "changeDispenserStatus price (disp_id d) CLOSE (Date T1) m2 = (Inr (Success d3), m3)"
  shows "\<exists>a. fst (getSpending price now' (disp_id d) m3)
           = Inr \<lparr>amount = a,
                  usages = [\<lparr>opened_at = T0, closed_at = Some T1,
                             usage_flow_volume = flow_volume d,
                             total_spent = Some (calculateTotalSpent price T0 T1 (flow_volume d))\<rparr>]\<rparr>"
proof -
  from create have d: "disp_id d = uid" "state d = CLOSE"
    and m1: "m1 = m\<lparr>dispensers := dispensers m @ [d]\<rparr>"
    by (auto simp: createDispenser_cases split: if_splits)
  have f1: "find_dispenser uid m1 = Some d"
  proof -
    have "\<forall>x \<in> set (dispensers m). \<not> disp_id x = uid" using fresh by blast
    then have "find (\<lambda>x. disp_id x = uid) (dispensers m @ [d]) = Some d"
      using d(1) by (rule find_append_fresh)
    then show ?thesis by (simp add: find_dispenser_def m1)
  qed
  have "statusChanges m uid = None"
    using reachable_ledger_dom [OF reach, of uid] fresh by blast
  then have s1: "statusChanges m1 uid = None" by (simp add: m1)
  let ?d2 = "d\<lparr>state := OPEN, updated_at := T0\<rparr>"
  let ?sc = "\<lparr>opened_at = T0, closed_at = None, usage_flow_volume = flow_volume d, total_spent = None\<rparr>"
  let ?upd = "\<lambda>x. update_first (\<lambda>x. disp_id x = uid) (\<lambda>_. x)"
  from opened f1 s1 d have
    m2: "m2 = m1\<lparr>dispensers := ?upd ?d2 (dispensers m1),
                  statusChanges := (statusChanges m1)(uid \<mapsto> [?sc])\<rparr>"
    by (auto simp: changeDispenserStatus_def Let_def)
  have f2: "find_dispenser uid m2 = Some ?d2"
    using find_update_first [of "\<lambda>x. disp_id x = uid" "dispensers m1" d "\<lambda>_. ?d2"] f1 d(1)
    by (simp add: m2 find_dispenser_def)
  have s2: "statusChanges m2 uid = Some [?sc]" by (simp add: m2)
  let ?l = "\<lparr>opened_at = T0, closed_at = Some T1, usage_flow_volume = flow_volume d,
             total_spent = Some (calculateTotalSpent price T0 T1 (flow_volume d))\<rparr>"
  let ?d3 = "?d2\<lparr>state := CLOSE, updated_at := T1\<rparr>"
  from closed f2 s2 d(1) have s3: "statusChanges m3 uid = Some [?l]"
    and ds3: "dispensers m3 = ?upd ?d3 (dispensers m2)"
    by (auto simp: changeDispenserStatus_def Let_def updateTotalSpentPerDispenser_def
        split: if_splits)
  have f3: "find_dispenser uid m3 = Some ?d3"
    using find_update_first [of "\<lambda>x. disp_id x = uid" "dispensers m2" ?d2 "\<lambda>_. ?d3"] f2 d(1)
    by (simp add: ds3 find_dispenser_def)
  from getSpending_closed [OF f3 s3, of T1 price now'] show ?thesis
    by (simp add: d(1))
qed

theorem round_trip_witness:
  "reachable (49 / 4) new_manager
   \<and> ''tap-1'' \<notin> disp_id ` set (dispensers new_manager)
   \<and> createDispenser ''tap-1'' 0 (VNum (Fin (1 / 2))) new_manager
       = (Inr \<lparr>disp_id = ''tap-1'', flow_volume = Fin (1 / 2), state = CLOSE, updated_at = 0\<rparr>,
          fresh_store)
   \<and> changeDispenserStatus (49 / 4) ''tap-1'' OPEN (Date 10000) fresh_store
       = (Inr (Success \<lparr>disp_id = ''tap-1'', flow_volume = Fin (1 / 2), state = OPEN,
                         updated_at = 10000\<rparr>), open_store)
   \<and> changeDispenserStatus (49 / 4) ''tap-1'' CLOSE (Date 10200) open_store
       = (Inr (Success \<lparr>disp_id = ''tap-1'', flow_volume = Fin (1 / 2), state = CLOSE,
                         updated_at = 10200\<rparr>), closed_store)
   \<and> (\<exists>a. fst (getSpending (49 / 4) 99999 ''tap-1'' closed_store)
           = Inr \<lparr>amount = a,
                  usages = [\<lparr>opened_at = 10000, closed_at = Some 10200,
                             usage_flow_volume = Fin (1 / 2),
                             total_spent = Some (calculateTotalSpent (49 / 4) 10000 10200 (Fin (1 / 2)))\<rparr>]\<rparr>)"
proof -
  let ?d = "\<lparr>disp_id = ''tap-1'', flow_volume = Fin (1 / 2), state = CLOSE, updated_at = 0\<rparr>"
  let ?d2 = "\<lparr>disp_id = ''tap-1'', flow_volume = Fin (1 / 2), state = OPEN, updated_at = 10000\<rparr>"
  let ?d3 = "\<lparr>disp_id = ''tap-1'', flow_volume = Fin (1 / 2), state = CLOSE, updated_at = 10200\<rparr>"
  have fresh: "''tap-1'' \<notin> disp_id ` set (dispensers new_manager)"
    by (simp add: new_manager_def)
  have create: "createDispenser ''tap-1'' 0 (VNum (Fin (1 / 2))) new_manager = (Inr ?d, fresh_store)"
    by (simp add: fresh_store_eval createDispenser_def new_manager_def Let_def example_arith)
  have opened: "changeDispenserStatus (49 / 4) (disp_id ?d) OPEN (Date 10000) fresh_store
                  = (Inr (Success ?d2), open_store)"
    by (simp add: open_store_eval fresh_store_eval changeDispenserStatus_def find_dispenser_def Let_def)
  have closed: "changeDispenserStatus (49 / 4) (disp_id ?d) CLOSE (Date 10200) open_store
                  = (Inr (Success ?d3), closed_store)"
    by (simp add: closed_store_eval open_store_eval eval_defs example_arith)
  from round_trip [OF reachable_new fresh create opened closed, of 99999]
  have "\<exists>a. fst (getSpending (49 / 4) 99999 ''tap-1'' closed_store)
           = Inr \<lparr>amount = a,
                  usages = [\<lparr>opened_at = 10000, closed_at = Some 10200,
                             usage_flow_volume = Fin (1 / 2),
                             total_spent = Some (calculateTotalSpent (49 / 4) 10000 10200 (Fin (1 / 2)))\<rparr>]\<rparr>"
    by simp
  moreover have "changeDispenserStatus (49 / 4) ''tap-1'' OPEN (Date 10000) fresh_store
                  = (Inr (Success ?d2), open_store)"
    "changeDispenserStatus (49 / 4) ''tap-1'' CLOSE (Date 10200) open_store
                  = (Inr (Success ?d3), closed_store)"
    using opened closed by simp_all
  ultimately show ?thesis using reachable_new [of "49 / 4"] fresh create by blast
qed

section \<open>Nothing is removed, and only the last period is rewritten\<close>

lemma ledger_extends_refl: "ledger_extends xs xs"
  by (simp add: ledger_extends_def butlast_conv_take)

lemma ledger_extends_trans:
  assumes ab: "ledger_extends a b" and bc: "ledger_extends b c"
  shows "ledger_extends a c"
proof -
  from ab have lab: "length a \<le> length b" and tb: "take (length a - 1) b = butlast a"
    and ob: "map opened_at (take (length a) b) = map opened_at a"
    and fb: "map usage_flow_volume (take (length a) b) = map usage_flow_volume a"
    by (simp_all add: ledger_extends_def)
  from bc have lbc: "length b \<le> length c" and tc: "take (length b - 1) c = butlast b"
    and oc: "map opened_at (take (length b) c) = map opened_at b"
    and fc: "map usage_flow_volume (take (length b) c) = map usage_flow_volume b"
    by (simp_all add: ledger_extends_def)
  have "take (length a - 1) c = take (length a - 1) (take (length b - 1) c)"
    using lab by (simp add: min_def)
  also have "\<dots> = take (length a - 1) (butlast b)" by (simp only: tc)
  also have "\<dots> = take (length a - 1) b"
    using lab by (simp add: butlast_conv_take min_def)
  finally have 1: "take (length a - 1) c = butlast a" using tb by simp
  have pre: "map g (take (length a) c) = map g a"
    if "map g (take (length b) c) = map g b" "map g (take (length a) b) = map g a" for g :: "statusChange \<Rightarrow> 'b"
  proof -
    have "map g (take (length a) c) = take (length a) (take (length b) (map g c))"
      using lab by (simp add: take_map min_def)
    also have "\<dots> = take (length a) (map g b)" using that(1) by (simp add: take_map)
    also have "\<dots> = map g a" using that(2) by (simp add: take_map)
    finally show ?thesis .
  qed
  show ?thesis unfolding ledger_extends_def
    using lab lbc 1 pre [OF oc ob] pre [OF fc fb] by simp
qed

lemma ledger_step_extends:
  assumes "ledger_step price (Some scs) new"
  shows "\<exists>scs'. new = Some scs' \<and> ledger_extends scs scs'"
proof -
  from assms consider (same) "new = Some scs"
    | (push) sc where "new = Some (scs @ [sc])"
    | (last) l where "scs \<noteq> []" "new = Some (butlast scs @ [l])"
        "opened_at l = opened_at (last scs)" "usage_flow_volume l = usage_flow_volume (last scs)"
    unfolding ledger_step_def by auto
  then show ?thesis
  proof cases
    case same
    then show ?thesis by (simp add: ledger_extends_refl)
  next
    case push
    then show ?thesis by (simp add: ledger_extends_def butlast_conv_take)
  next
    case last
    have len: "length (butlast scs @ [l]) = length scs" using last(1) by simp
    have id: "butlast scs @ [last scs] = scs" using last(1) by (rule append_butlast_last_id)
    have "map opened_at (butlast scs @ [l]) = map opened_at (butlast scs @ [last scs])"
      using last(3) by simp
    then have mo: "map opened_at (butlast scs @ [l]) = map opened_at scs" by (simp only: id)
    have "map usage_flow_volume (butlast scs @ [l]) = map usage_flow_volume (butlast scs @ [last scs])"
      using last(4) by simp
    then have mf: "map usage_flow_volume (butlast scs @ [l]) = map usage_flow_volume scs"
      by (simp only: id)
    have tk: "take (length scs) (butlast scs @ [l]) = butlast scs @ [l]"
      using len by simp
    have le: "length scs \<le> length (butlast scs @ [l])" using len by simp
    have bl: "take (length scs - 1) (butlast scs @ [l]) = butlast scs" by simp
    have "ledger_extends scs (butlast scs @ [l])"
      unfolding ledger_extends_def tk using le bl mo mf by blast
    then show ?thesis using last(2) by blast
  qed
qed

lemma ids_prefix_trans:
  assumes "take (length a) b = (a :: 'a list)" and "take (length b) c = b"
  shows "take (length a) c = a"
proof -
  have "length (take (length a) b) = length a" by (simp only: assms(1))
  then have "length a \<le> length b" by simp
  then have "take (length a) c = take (length a) (take (length b) c)" by (simp add: min_def)
  then show ?thesis using assms by simp
qed


text \<open>
  C10. Whatever calls are made, in whatever order and with whatever outcome: the
  dispensers that were in the store are still there, at their places and with their ids;
  and every usage sequence that existed has been continued in the sense of
  \<open>ledger_extends\<close>: no period removed or reordered, every period but the formerly last
  one unchanged, and \<open>opened_at\<close> and the flow volume of every period unchanged.
\<close>

theorem append_only:
  "take (length (dispensers m)) (map disp_id (dispensers (run price ops m)))
     = map disp_id (dispensers m)
   \<and> (\<forall>i scs. statusChanges m i = Some scs \<longrightarrow>
         (\<exists>scs'. statusChanges (run price ops m) i = Some scs' \<and> ledger_extends scs scs'))"
proof (induction ops arbitrary: m)
  case Nil
  then show ?case by (simp add: run_def ledger_extends_refl)
next
  case (Cons op ops)
  let ?m1 = "step price op m"
  have run: "run price (op # ops) m = run price ops ?m1" by (simp add: run_def)
  have a: "take (length (dispensers m)) (map disp_id (dispensers ?m1)) = map disp_id (dispensers m)"
    by (rule step_ids_prefix)
  have b: "take (length (dispensers ?m1)) (map disp_id (dispensers (run price ops ?m1)))
             = map disp_id (dispensers ?m1)"
    using Cons.IH [of ?m1] by blast
  have ids: "take (length (dispensers m)) (map disp_id (dispensers (run price ops ?m1)))
               = map disp_id (dispensers m)"
    using ids_prefix_trans [of "map disp_id (dispensers m)" "map disp_id (dispensers ?m1)"
        "map disp_id (dispensers (run price ops ?m1))"] a b by simp
  have led: "\<exists>scs'. statusChanges (run price ops ?m1) i = Some scs' \<and> ledger_extends scs scs'"
    if "statusChanges m i = Some scs" for i scs
  proof -
    have "ledger_step price (Some scs) (statusChanges ?m1 i)"
      using step_ledger [of price m i op] that by simp
    then obtain mid where mid: "statusChanges ?m1 i = Some mid" "ledger_extends scs mid"
      using ledger_step_extends by blast
    from Cons.IH [of ?m1] mid(1) obtain scs' where
      "statusChanges (run price ops ?m1) i = Some scs'" "ledger_extends mid scs'" by blast
    then show ?thesis using ledger_extends_trans [OF mid(2)] by blast
  qed
  show ?case unfolding run using ids led by blast
qed

theorem append_only_witness:
  "statusChanges open_store ''tap-1''
     = Some [\<lparr>opened_at = 10000, closed_at = None, usage_flow_volume = Fin (1 / 2), total_spent = None\<rparr>]
   \<and> statusChanges (run (49 / 4) [ChangeStatusOp ''tap-1'' CLOSE (Date 10200),
         ChangeStatusOp ''tap-1'' OPEN (Date 20000)] open_store) ''tap-1''
     = Some [\<lparr>opened_at = 10000, closed_at = Some 10200, usage_flow_volume = Fin (1 / 2),
              total_spent = Some (cents 123)\<rparr>,
             \<lparr>opened_at = 20000, closed_at = None, usage_flow_volume = Fin (1 / 2), total_spent = None\<rparr>]
   \<and> ledger_extends
        [\<lparr>opened_at = 10000, closed_at = None, usage_flow_volume = Fin (1 / 2), total_spent = None\<rparr>]
        [\<lparr>opened_at = 10000, closed_at = Some 10200, usage_flow_volume = Fin (1 / 2),
              total_spent = Some (cents 123)\<rparr>,
         \<lparr>opened_at = 20000, closed_at = None, usage_flow_volume = Fin (1 / 2), total_spent = None\<rparr>]
   \<and> take 1 (map disp_id (dispensers (run (49 / 4) [ChangeStatusOp ''tap-1'' CLOSE (Date 10200),
         ChangeStatusOp ''tap-1'' OPEN (Date 20000)] open_store))) = [''tap-1'']"
proof -
  let ?ops = "[ChangeStatusOp ''tap-1'' CLOSE (Date 10200), ChangeStatusOp ''tap-1'' OPEN (Date 20000)]"
  let ?old = "[\<lparr>opened_at = 10000, closed_at = None, usage_flow_volume = Fin (1 / 2), total_spent = None\<rparr>]"
  let ?new = "[\<lparr>opened_at = 10000, closed_at = Some 10200, usage_flow_volume = Fin (1 / 2),
              total_spent = Some (cents 123)\<rparr>,
         \<lparr>opened_at = 20000, closed_at = None, usage_flow_volume = Fin (1 / 2), total_spent = None\<rparr>]"
  have old: "statusChanges open_store ''tap-1'' = Some ?old" by (simp add: open_store_eval)
  have new: "statusChanges (run (49 / 4) ?ops open_store) ''tap-1'' = Some ?new"
    by (simp add: open_store_eval eval_defs example_arith)
  have len: "length (dispensers open_store) = 1" "map disp_id (dispensers open_store) = [''tap-1'']"
    by (simp_all add: open_store_eval)
  from append_only [of open_store "49 / 4" ?ops] have
    ids: "take (length (dispensers open_store)) (map disp_id (dispensers (run (49 / 4) ?ops open_store)))
            = map disp_id (dispensers open_store)"
    and led: "\<forall>i scs. statusChanges open_store i = Some scs \<longrightarrow>
         (\<exists>scs'. statusChanges (run (49 / 4) ?ops open_store) i = Some scs' \<and> ledger_extends scs scs')"
    by blast+
  from led old obtain scs' where
    "statusChanges (run (49 / 4) ?ops open_store) ''tap-1'' = Some scs'" "ledger_extends ?old scs'"
    by blast
  with new have ext: "ledger_extends ?old ?new" by simp
  from ids len have "take 1 (map disp_id (dispensers (run (49 / 4) ?ops open_store))) = [''tap-1'']"
    by simp
  with old new ext show ?thesis by blast
qed

end
